theory Spec2Isabelle
  imports Main "HOL-Library.Char_ord" "HOL-Library.List_Lexorder"
begin

section \<open>Data model (types.ts)\<close>

text \<open>
  JavaScript numbers are modelled as \<open>int\<close> (timestamps, page numbers and counts are
  integral in every use the adapters make of them); strings are byte strings, compared
  lexicographically as JavaScript compares code units. An optional property is an
  \<open>option\<close>: \<open>None\<close> is \<open>undefined\<close> (or \<open>null\<close>).
\<close>

datatype json =
    JNull
  | JBool bool
  | JNum int
  | JStr string
  | JArr "json list"
  | JObj "(string \<times> json) list"

record AuditEvent =
  id_f :: "string option"
  action :: string
  entity :: string
  entityId :: "string option"
  userId :: "string option"
  userName :: "string option"
  description :: "string option"
  metadata :: "(string \<times> json) list option"
  timestamp :: "int option"
  ipAddress :: "string option"
  userAgent :: "string option"

record AuditFilter =
  f_action :: "string option"
  f_entity :: "string option"
  f_entityId :: "string option"
  f_userId :: "string option"
  f_startDate :: "int option"
  f_endDate :: "int option"
  f_search :: "string option"

record PaginationOptions =
  page :: int
  pageSize :: int

datatype direction = Asc | Desc

record SortOptions =
  field :: string
  direction :: direction

record QueryOptions =
  filter_f :: "AuditFilter option"
  pagination :: "PaginationOptions option"
  sort_f :: "SortOptions option"

record PaginatedResult =
  data :: "AuditEvent list"
  total_f :: int
  res_page :: int
  res_pageSize :: int
  totalPages :: int

text \<open>A thrown \<open>Error\<close> is a value carrying its message.\<close>

datatype error = Error string

section \<open>JavaScript primitives used by the adapters\<close>

text \<open>Truthiness of an optional string and of an optional number, as \<open>&&\<close> and
  \<open>||\<close> test it: \<open>undefined\<close>, the empty string and \<open>0\<close> are falsy.\<close>

fun truthy_str :: "string option \<Rightarrow> bool" where
  "truthy_str None = False"
| "truthy_str (Some s) = (s \<noteq> [])"

fun truthy_num :: "int option \<Rightarrow> bool" where
  "truthy_num None = False"
| "truthy_num (Some n) = (n \<noteq> 0)"

text \<open>\<open>a || b\<close> on numbers and on strings.\<close>

fun or_num :: "int option \<Rightarrow> int \<Rightarrow> int" where
  "or_num None d = d"
| "or_num (Some n) d = (if n \<noteq> 0 then n else d)"

fun or_str :: "string option \<Rightarrow> string \<Rightarrow> string" where
  "or_str None d = d"
| "or_str (Some s) d = (if s \<noteq> [] then s else d)"

text \<open>\<open>toLowerCase\<close>, on texts of ASCII characters: the letters A to Z are lowered,
  every other character is left as it is. (JavaScript lowers the cased letters beyond
  ASCII as well; the texts of this model are ASCII texts.)\<close>

definition lower_char :: "char \<Rightarrow> char" where
  "lower_char c =
     (case map_of (zip ''ABCDEFGHIJKLMNOPQRSTUVWXYZ'' ''abcdefghijklmnopqrstuvwxyz'') c of
        Some d \<Rightarrow> d
      | None \<Rightarrow> c)"

definition toLowerCase :: "string \<Rightarrow> string" where
  "toLowerCase s = map lower_char s"

fun startsWith :: "string \<Rightarrow> string \<Rightarrow> bool" where
  "startsWith s [] = True"
| "startsWith [] (p # ps) = False"
| "startsWith (c # cs) (p # ps) = (c = p \<and> startsWith cs ps)"

text \<open>\<open>s.includes(needle)\<close>: \<open>needle\<close> occurs in \<open>s\<close> as a contiguous substring.\<close>

fun includes_str :: "string \<Rightarrow> string \<Rightarrow> bool" where
  "includes_str [] needle = (needle = [])"
| "includes_str (c # cs) needle = (startsWith (c # cs) needle \<or> includes_str cs needle)"

text \<open>An index argument of \<open>slice\<close> and \<open>splice\<close>: a negative index counts from the
  end, and the result is clamped to \<open>0 .. length\<close>.\<close>

definition rel_index :: "nat \<Rightarrow> int \<Rightarrow> nat" where
  "rel_index len i = (if i < 0 then nat (max (int len + i) 0) else min (nat i) len)"

definition slice :: "'a list \<Rightarrow> int \<Rightarrow> int \<Rightarrow> 'a list" where
  "slice xs start stop =
     (let k = rel_index (length xs) start;
          final = rel_index (length xs) stop
      in take (final - k) (drop k xs))"

text \<open>\<open>xs.splice(start)\<close> removes everything from \<open>start\<close> on; what stays in \<open>xs\<close>:\<close>

definition splice :: "'a list \<Rightarrow> int \<Rightarrow> 'a list" where
  "splice xs start = take (rel_index (length xs) start) xs"

text \<open>\<open>Math.ceil(a / b)\<close> for integers \<open>a\<close> and \<open>b \<noteq> 0\<close>.\<close>

definition ceil_div :: "int \<Rightarrow> int \<Rightarrow> int" where
  "ceil_div a b = - ((- a) div b)"

text \<open>
  \<open>Array.prototype.sort(compare)\<close> is the engine's stable sort. It is modelled as the
  insertion sort that a run-based engine sort (V8's) performs on a short array: the
  elements are taken in array order, and each is put into the sorted prefix in front of
  the first element \<open>y\<close> with \<open>compare(x, y) < 0\<close>, behind every other element. A
  call of \<open>compare\<close> may throw (\<open>None\<close>); then the sort throws.
\<close>

fun place :: "('a \<Rightarrow> 'a \<Rightarrow> int option) \<Rightarrow> 'a \<Rightarrow> 'a list \<Rightarrow> 'a list option" where
  "place c x [] = Some [x]"
| "place c x (y # ys) =
     (case c x y of
        None \<Rightarrow> None
      | Some n \<Rightarrow> if n < 0 then Some (x # y # ys) else map_option ((#) y) (place c x ys))"

fun sort_from :: "('a \<Rightarrow> 'a \<Rightarrow> int option) \<Rightarrow> 'a list \<Rightarrow> 'a list \<Rightarrow> 'a list option" where
  "sort_from c acc [] = Some acc"
| "sort_from c acc (x # xs) =
     (case place c x acc of None \<Rightarrow> None | Some acc' \<Rightarrow> sort_from c acc' xs)"

definition js_sort :: "('a \<Rightarrow> 'a \<Rightarrow> int option) \<Rightarrow> 'a list \<Rightarrow> 'a list option" where
  "js_sort c xs = sort_from c [] xs"

fun digit_char :: "nat \<Rightarrow> char" where
  "digit_char n = ''0123456789'' ! (n mod 10)"

fun string_of_nat :: "nat \<Rightarrow> string" where
  "string_of_nat n =
     (if n < 10 then [digit_char n] else string_of_nat (n div 10) @ [digit_char n])"

definition string_of_int :: "int \<Rightarrow> string" where
  "string_of_int i = (if i < 0 then CHR ''-'' # string_of_nat (nat (- i)) else string_of_nat (nat i))"

section \<open>LocalStorageAdapter\<close>

text \<open>
  \<open>localStorage\<close> maps a key to the stored text. The text is kept by what
  \<open>JSON.parse\<close> makes of it: \<open>Unparseable\<close> is any text on which \<open>JSON.parse\<close> throws
  (the empty text, which the adapter does not even parse, behaves the same);
  \<open>Parsed evs\<close> is the serialisation of the event array \<open>evs\<close>, which is what
  \<open>save\<close> writes; \<open>NotArray\<close> is a text that parses to a JSON value that is neither an
  array nor a string: \<open>null\<close>, a boolean, a number or an object. Such a value is
  \<open>null\<close> or has none of the array methods, so every use the adapter makes of it throws a
  \<open>TypeError\<close>. (The text of a JSON string is left out: \<open>save\<close> fails on it in the same
  way, \<open>query\<close> would read its characters as events. So is the text of an array with
  an element that is no event object.)
\<close>

datatype blob = Unparseable | Parsed "AuditEvent list" | NotArray

text \<open>What \<open>getAllEvents\<close> returns: an array of events, or a value that is no array.\<close>

datatype stored = Events "AuditEvent list" | NonArrayValue

type_synonym localStorage = "string \<rightharpoonup> blob"

record LocalStorageAdapter =
  storageKey :: string
  maxEvents :: int

text \<open>What one call of \<open>save\<close> reads from its environment: the clock
  (\<open>Date.now()\<close>), the random suffix \<open>Math.random().toString(36).substr(2, 9)\<close>, and
  whether \<open>localStorage.setItem\<close> accepts the write (it throws when the quota is
  exceeded).\<close>

record env =
  now :: int
  random :: string
  setItem_ok :: bool

definition getAllEvents :: "LocalStorageAdapter \<Rightarrow> localStorage \<Rightarrow> stored" where
  "getAllEvents a st =
     (case st (storageKey a) of
        None \<Rightarrow> Events []
      | Some Unparseable \<Rightarrow> Events []
      | Some (Parsed evs) \<Rightarrow> Events evs
      | Some NotArray \<Rightarrow> NonArrayValue)"

definition generateId :: "env \<Rightarrow> string" where
  "generateId e = string_of_int (now e) @ ''-'' @ random e"

definition newEvent :: "env \<Rightarrow> AuditEvent \<Rightarrow> AuditEvent" where
  "newEvent e event =
     event\<lparr> id_f := Some (or_str (id_f event) (generateId e)),
            timestamp := Some (or_num (timestamp event) (now e)) \<rparr>"

text \<open>\<open>save\<close>. Whatever is thrown inside its \<open>try\<close> (by \<open>unshift\<close> on a value that
  is no array, or by \<open>setItem\<close>) is caught and replaced by the adapter's error.\<close>

definition save :: "LocalStorageAdapter \<Rightarrow> env \<Rightarrow> localStorage \<Rightarrow> AuditEvent \<Rightarrow> error + localStorage" where
  "save a e st event =
     (case getAllEvents a st of
        NonArrayValue \<Rightarrow> Inl (Error ''Failed to save audit event to localStorage'')
      | Events events \<Rightarrow>
          (let events = newEvent e event # events;
               events = (if int (length events) > maxEvents a then splice events (maxEvents a)
                         else events)
           in if setItem_ok e then Inr (st(storageKey a \<mapsto> Parsed events))
              else Inl (Error ''Failed to save audit event to localStorage'')))"

text \<open>The callback of \<open>applyFilters\<close>: each \<open>return false\<close> of the source is one
  branch, in the source's order.\<close>

definition searchable :: "string \<Rightarrow> string option \<Rightarrow> bool" where
  "searchable searchLower fld =
     (case fld of None \<Rightarrow> False | Some s \<Rightarrow> includes_str (toLowerCase s) searchLower)"

definition keeps :: "AuditFilter \<Rightarrow> AuditEvent \<Rightarrow> bool" where
  "keeps f event =
     (if truthy_str (f_action f) \<and> Some (action event) \<noteq> f_action f then False
      else if truthy_str (f_entity f) \<and> Some (entity event) \<noteq> f_entity f then False
      else if truthy_str (f_entityId f) \<and> entityId event \<noteq> f_entityId f then False
      else if truthy_str (f_userId f) \<and> userId event \<noteq> f_userId f then False
      else if (case (f_startDate f, timestamp event) of
                 (Some s, Some t) \<Rightarrow> s \<noteq> 0 \<and> t \<noteq> 0 \<and> t < s
               | _ \<Rightarrow> False) then False
      else if (case (f_endDate f, timestamp event) of
                 (Some e, Some t) \<Rightarrow> e \<noteq> 0 \<and> t \<noteq> 0 \<and> t > e
               | _ \<Rightarrow> False) then False
      else (case f_search f of
              None \<Rightarrow> True
            | Some q \<Rightarrow>
                if q = [] then True
                else (let searchLower = toLowerCase q;
                          searchableFields =
                            [Some (action event), Some (entity event), entityId event,
                             userName event, description event]
                      in list_ex (searchable searchLower) searchableFields)))"

definition applyFilters :: "AuditEvent list \<Rightarrow> AuditFilter \<Rightarrow> AuditEvent list" where
  "applyFilters events f = filter (keeps f) events"

text \<open>The value of a property of an event, read by name (\<open>a[sort.field]\<close>): a string,
  a number, or the metadata object. A name that is no property of the event gives
  \<open>undefined\<close>.\<close>

datatype fval = Str string | Num int | Obj "(string \<times> json) list"

definition getField :: "string \<Rightarrow> AuditEvent \<Rightarrow> fval option" where
  "getField k e =
     (if k = ''id'' then map_option Str (id_f e)
      else if k = ''action'' then Some (Str (action e))
      else if k = ''entity'' then Some (Str (entity e))
      else if k = ''entityId'' then map_option Str (entityId e)
      else if k = ''userId'' then map_option Str (userId e)
      else if k = ''userName'' then map_option Str (userName e)
      else if k = ''description'' then map_option Str (description e)
      else if k = ''metadata'' then map_option Obj (metadata e)
      else if k = ''timestamp'' then map_option Num (timestamp e)
      else if k = ''ipAddress'' then map_option Str (ipAddress e)
      else if k = ''userAgent'' then map_option Str (userAgent e)
      else None)"

text \<open>
  \<open>a < b\<close> first converts both operands to primitive values. A string or a number is
  one. An object is converted by its \<open>valueOf\<close> and \<open>toString\<close>: a metadata object
  read from JSON inherits both, \<open>valueOf\<close> returns the object itself and \<open>toString\<close>
  the text \<open>[object Object]\<close>; but when the object has a key \<open>toString\<close> of its own,
  that value is not callable, no conversion is left, and a \<open>TypeError\<close> is thrown
  (\<open>None\<close>).
\<close>

fun to_primitive :: "fval \<Rightarrow> fval option" where
  "to_primitive (Str a) = Some (Str a)"
| "to_primitive (Num a) = Some (Num a)"
| "to_primitive (Obj m) =
     (if list_ex (\<lambda>kv. fst kv = ''toString'') m then None else Some (Str ''[object Object]''))"

text \<open>Two primitive values of one property: strings compare by code units, numbers by
  value. The values of one property are of one kind, so the last equation is not
  reached.\<close>

fun prim_lt :: "fval \<Rightarrow> fval \<Rightarrow> bool" where
  "prim_lt (Str a) (Str b) = (a < b)"
| "prim_lt (Num a) (Num b) = (a < b)"
| "prim_lt _ _ = False"

definition js_lt :: "fval \<Rightarrow> fval \<Rightarrow> bool option" where
  "js_lt a b =
     (case to_primitive a of
        None \<Rightarrow> None
      | Some pa \<Rightarrow> (case to_primitive b of None \<Rightarrow> None | Some pb \<Rightarrow> Some (prim_lt pa pb)))"

definition comparator :: "SortOptions \<Rightarrow> AuditEvent \<Rightarrow> AuditEvent \<Rightarrow> int option" where
  "comparator s a b =
     (case getField (field s) a of
        None \<Rightarrow> Some 1
      | Some aValue \<Rightarrow>
          (case getField (field s) b of
             None \<Rightarrow> Some (- 1)
           | Some bValue \<Rightarrow>
               (case js_lt aValue bValue of
                  None \<Rightarrow> None
                | Some lt \<Rightarrow>
                    (case js_lt bValue aValue of
                       None \<Rightarrow> None
                     | Some gt \<Rightarrow>
                         Some (let comparison = 0;
                                   comparison = (if lt then - 1 else comparison);
                                   comparison = (if gt then 1 else comparison)
                               in if direction s = Asc then comparison else - comparison)))))"

definition applySort :: "AuditEvent list \<Rightarrow> SortOptions \<Rightarrow> AuditEvent list option" where
  "applySort events s = js_sort (comparator s) events"

text \<open>\<open>query\<close>. Two things throw inside its \<open>try\<close>: the use of a stored value that is
  no array, and a comparison of the sort. Either is caught and replaced by the adapter's
  error. Filtering and cutting the page do not throw.\<close>

definition query :: "LocalStorageAdapter \<Rightarrow> localStorage \<Rightarrow> QueryOptions option \<Rightarrow> error + PaginatedResult" where
  "query a st options =
     (case getAllEvents a st of
        NonArrayValue \<Rightarrow> Inl (Error ''Failed to query audit events from localStorage'')
      | Events events \<Rightarrow>
          (let events = (case Option.bind options filter_f of
                           Some f \<Rightarrow> applyFilters events f
                         | None \<Rightarrow> events)
           in case (case Option.bind options sort_f of
                      Some s \<Rightarrow> applySort events s
                    | None \<Rightarrow> Some events) of
                None \<Rightarrow> Inl (Error ''Failed to query audit events from localStorage'')
              | Some events \<Rightarrow>
                  (let pg = or_num (map_option page (Option.bind options pagination)) 1;
                       ps = or_num (map_option pageSize (Option.bind options pagination)) 10;
                       total = int (length events);
                       totalPages = ceil_div total ps;
                       startIndex = (pg - 1) * ps;
                       endIndex = startIndex + ps;
                       paginatedData = slice events startIndex endIndex
                   in Inr \<lparr> data = paginatedData, total_f = total, res_page = pg,
                            res_pageSize = ps, totalPages = totalPages \<rparr>)))"

definition clear :: "LocalStorageAdapter \<Rightarrow> localStorage \<Rightarrow> error + localStorage" where
  "clear a st = Inr (st(storageKey a := None))"

section \<open>FirebaseAdapter.query\<close>

text \<open>
  The Firestore collection is a list of documents, each a document id with the stored
  event. The query primitives are those of the Firestore client, with the meaning its
  documentation gives them: \<open>where\<close> keeps the documents whose property satisfies the
  comparison; \<open>orderBy\<close> keeps the documents that have the property and orders them by
  it, and documents of equal value by their document id, in the same direction;
  \<open>limit(n)\<close> keeps the first \<open>n\<close> and rejects \<open>n \<le> 0\<close>. The adapter adds its
  constraints in the order filters, ordering, limit, and \<open>getDocs\<close> applies them in that
  order. Two map values are taken as of equal value. The adapter is taken as initialised,
  and the indexes that Firestore asks for are taken to exist; any failure of \<open>getDocs\<close>
  reaches the caller as the adapter's one error.
\<close>

type_synonym doc = "string \<times> AuditEvent"

datatype fs_op = OpEq | OpGe | OpLe

datatype constraint = Where string fs_op fval | OrderBy string direction | Limit int

fun fs_holds :: "fs_op \<Rightarrow> fval \<Rightarrow> fval \<Rightarrow> bool" where
  "fs_holds OpEq d v = (d = v)"
| "fs_holds OpGe d v = (d = v \<or> prim_lt v d)"
| "fs_holds OpLe d v = (d = v \<or> prim_lt d v)"

text \<open>Document \<open>a\<close> comes before document \<open>b\<close> in the order by property \<open>k\<close>.\<close>

definition fs_before :: "string \<Rightarrow> direction \<Rightarrow> doc \<Rightarrow> doc \<Rightarrow> bool" where
  "fs_before k dir a b =
     (case (getField k (snd a), getField k (snd b)) of
        (Some x, Some y) \<Rightarrow>
          if prim_lt x y then dir = Asc
          else if prim_lt y x then dir = Desc
          else if fst a < fst b then dir = Asc
          else if fst b < fst a then dir = Desc
          else False
      | _ \<Rightarrow> False)"

fun fs_insert :: "(doc \<Rightarrow> doc \<Rightarrow> bool) \<Rightarrow> doc \<Rightarrow> doc list \<Rightarrow> doc list" where
  "fs_insert before x [] = [x]"
| "fs_insert before x (y # ys) =
     (if before x y then x # y # ys else y # fs_insert before x ys)"

fun fs_sort :: "(doc \<Rightarrow> doc \<Rightarrow> bool) \<Rightarrow> doc list \<Rightarrow> doc list" where
  "fs_sort before [] = []"
| "fs_sort before (x # xs) = fs_insert before x (fs_sort before xs)"

fun apply_constraint :: "constraint \<Rightarrow> doc list \<Rightarrow> error + doc list" where
  "apply_constraint (Where k opr v) ds =
     Inr (filter (\<lambda>d. case getField k (snd d) of None \<Rightarrow> False | Some x \<Rightarrow> fs_holds opr x v) ds)"
| "apply_constraint (OrderBy k dir) ds =
     Inr (fs_sort (fs_before k dir) (filter (\<lambda>d. getField k (snd d) \<noteq> None) ds))"
| "apply_constraint (Limit n) ds =
     (if n \<le> 0 then Inl (Error ''Invalid Query. Query limit is invalid.'') else Inr (take (nat n) ds))"

fun getDocs :: "doc list \<Rightarrow> constraint list \<Rightarrow> error + doc list" where
  "getDocs ds [] = Inr ds"
| "getDocs ds (c # cs) =
     (case apply_constraint c ds of Inl e \<Rightarrow> Inl e | Inr ds' \<Rightarrow> getDocs ds' cs)"

definition where_str :: "string \<Rightarrow> string option \<Rightarrow> constraint list" where
  "where_str k v = (case v of None \<Rightarrow> [] | Some s \<Rightarrow> if s = [] then [] else [Where k OpEq (Str s)])"

definition where_num :: "string \<Rightarrow> fs_op \<Rightarrow> int option \<Rightarrow> constraint list" where
  "where_num k opr v = (case v of None \<Rightarrow> [] | Some n \<Rightarrow> if n = 0 then [] else [Where k opr (Num n)])"

definition filter_constraints :: "AuditFilter \<Rightarrow> constraint list" where
  "filter_constraints f =
     where_str ''action'' (f_action f) @ where_str ''entity'' (f_entity f) @
     where_str ''entityId'' (f_entityId f) @ where_str ''userId'' (f_userId f) @
     where_num ''timestamp'' OpGe (f_startDate f) @ where_num ''timestamp'' OpLe (f_endDate f)"

definition doc_event :: "doc \<Rightarrow> AuditEvent" where
  "doc_event d =
     \<lparr> id_f = Some (fst d), action = action (snd d), entity = entity (snd d),
       entityId = entityId (snd d), userId = userId (snd d), userName = userName (snd d),
       description = description (snd d), metadata = metadata (snd d),
       timestamp = timestamp (snd d), ipAddress = ipAddress (snd d),
       userAgent = userAgent (snd d) \<rparr>"

definition firebase_query :: "doc list \<Rightarrow> QueryOptions option \<Rightarrow> error + PaginatedResult" where
  "firebase_query coll options =
     (let q = (case Option.bind options filter_f of
                 Some f \<Rightarrow> filter_constraints f
               | None \<Rightarrow> []);
          sortField = (case Option.bind options sort_f of
                         Some s \<Rightarrow> or_str (Some (field s)) ''timestamp''
                       | None \<Rightarrow> ''timestamp'');
          sortDirection = (case Option.bind options sort_f of
                             Some s \<Rightarrow> direction s
                           | None \<Rightarrow> Desc);
          q = q @ [OrderBy sortField sortDirection];
          pg = or_num (map_option page (Option.bind options pagination)) 1;
          ps = or_num (map_option pageSize (Option.bind options pagination)) 10;
          q = q @ [Limit ps]
      in case getDocs coll q of
           Inl e \<Rightarrow> Inl (Error ''Failed to query audit events from Firebase'')
         | Inr ds \<Rightarrow>
             (let events = map doc_event ds;
                  total = int (length events);
                  totalPages = ceil_div total ps
              in Inr \<lparr> data = events, total_f = total, res_page = pg, res_pageSize = ps,
                       totalPages = totalPages \<rparr>))"

section \<open>ApiAdapter.save and the provider's track\<close>

record ApiConfig =
  baseUrl :: string
  endpoint_create :: string
  endpoint_list :: string
  headers :: "(string \<times> string) list"
  timeout :: "int option"

record request =
  req_url :: string
  req_method :: string
  req_headers :: "(string \<times> string) list"
  req_body :: AuditEvent

text \<open>What \<open>fetch\<close> gives: it rejects (network failure, or the timeout signal aborts
  the request), or it resolves to a response with a status and a status text.\<close>

datatype response = Rejected | Response nat string

definition response_ok :: "nat \<Rightarrow> bool" where
  "response_ok status = (200 \<le> status \<and> status \<le> 299)"

definition create_request :: "ApiConfig \<Rightarrow> int \<Rightarrow> AuditEvent \<Rightarrow> request" where
  "create_request config date_now event =
     (let url = baseUrl config @ endpoint_create config;
          eventData = event\<lparr> timestamp := Some (or_num (timestamp event) date_now) \<rparr>
      in \<lparr> req_url = url, req_method = ''POST'',
           req_headers = (''Content-Type'', ''application/json'') # headers config,
           req_body = eventData \<rparr>)"

text \<open>A configured timeout other than 0 is made into a signal by
  \<open>AbortSignal.timeout\<close>, which throws on a number outside \<open>0 .. 2^53 - 1\<close>; that
  happens before \<open>fetch\<close> is called.\<close>

definition timeout_throws :: "int option \<Rightarrow> bool" where
  "timeout_throws t =
     (case t of None \<Rightarrow> False | Some n \<Rightarrow> n \<noteq> 0 \<and> (n < 0 \<or> n > 9007199254740991))"

definition api_save :: "ApiConfig \<Rightarrow> (request \<Rightarrow> response) \<Rightarrow> int \<Rightarrow> AuditEvent \<Rightarrow> error + unit" where
  "api_save config fetch date_now event =
     (if timeout_throws (timeout config) then Inl (Error ''Failed to save audit event via API'')
      else case fetch (create_request config date_now event) of
             Rejected \<Rightarrow> Inl (Error ''Failed to save audit event via API'')
           | Response status statusText \<Rightarrow>
               if \<not> response_ok status then Inl (Error ''Failed to save audit event via API'')
               else Inr ())"

text \<open>The provider (listed in INTEGRATION_GUIDE.md) keeps two pieces of state,
  \<open>loading\<close> and \<open>error\<close>. \<open>track\<close> takes the \<open>save\<close> of the provider's adapter;
  what an adapter throws is an \<open>Error\<close>, so the caught value is recorded as it is.\<close>

record Coordinator =
  loading :: bool
  error :: "error option"

definition track :: "Coordinator \<Rightarrow> (AuditEvent \<Rightarrow> error + unit) \<Rightarrow> AuditEvent \<Rightarrow> (error + unit) \<times> Coordinator" where
  "track c adapter_save event =
     (let c = c\<lparr> loading := True \<rparr>;
          c = c\<lparr> error := None \<rparr>
      in case adapter_save event of
           Inr u \<Rightarrow> (Inr u, c\<lparr> loading := False \<rparr>)
         | Inl err \<Rightarrow> (Inl err, (c\<lparr> error := Some err \<rparr>)\<lparr> loading := False \<rparr>))"

section \<open>Sequences of calls and example values\<close>

text \<open>A caller that awaits each \<open>save\<close> before the next; the first failure ends the
  sequence, as the rejected promise would.\<close>

fun save_all :: "LocalStorageAdapter \<Rightarrow> localStorage \<Rightarrow> (env \<times> AuditEvent) list \<Rightarrow> error + localStorage" where
  "save_all a st [] = Inr st"
| "save_all a st (s # rest) =
     (case save a (fst s) st (snd s) of Inl err \<Rightarrow> Inl err | Inr st' \<Rightarrow> save_all a st' rest)"

definition draft :: "string \<Rightarrow> AuditEvent" where
  "draft act =
     \<lparr> id_f = None, action = act, entity = ''User'', entityId = None, userId = None,
       userName = None, description = None, metadata = None, timestamp = None,
       ipAddress = None, userAgent = None \<rparr>"

definition adapter3 :: LocalStorageAdapter where
  "adapter3 = \<lparr> storageKey = ''audit_events'', maxEvents = 3 \<rparr>"

definition env_at :: "int \<Rightarrow> env" where
  "env_at t = \<lparr> now = t, random = ''k3x9q2m1z'', setItem_ok = True \<rparr>"

definition no_filter :: AuditFilter where
  "no_filter =
     \<lparr> f_action = None, f_entity = None, f_entityId = None, f_userId = None,
       f_startDate = None, f_endDate = None, f_search = None \<rparr>"

definition no_options :: QueryOptions where
  "no_options = \<lparr> filter_f = None, pagination = None, sort_f = None \<rparr>"

definition api_config :: ApiConfig where
  "api_config =
     \<lparr> baseUrl = ''https://api.example.com'', endpoint_create = ''/audit-logs'',
       endpoint_list = ''/audit-logs'', headers = [], timeout = None \<rparr>"

definition idle :: Coordinator where
  "idle = \<lparr> loading = False, error = None \<rparr>"

definition four_saves :: "(env \<times> AuditEvent) list" where
  "four_saves =
     [(env_at 1701, draft ''E1''), (env_at 1702, draft ''E2''),
      (env_at 1703, draft ''E3''), (env_at 1704, draft ''E4'')]"

text \<open>A draft that carries an empty \<open>id\<close> and the timestamp 0.\<close>

definition falsy_draft :: AuditEvent where
  "falsy_draft = (draft ''LOGIN'')\<lparr> id_f := Some [], timestamp := Some 0 \<rparr>"


definition by_timestamp_desc :: SortOptions where
  "by_timestamp_desc = \<lparr> field = ''timestamp'', direction = Desc \<rparr>"

text \<open>Any two of the events carry timestamps, and the earlier one in the list has a
  timestamp that is not below the later one's.\<close>

definition timestamps_descending :: "AuditEvent list \<Rightarrow> bool" where
  "timestamps_descending evs =
     sorted_wrt (\<lambda>x y. case (timestamp x, timestamp y) of
                          (Some tx, Some ty) \<Rightarrow> ty \<le> tx
                        | _ \<Rightarrow> False) evs"

definition two_events :: "AuditEvent list" where
  "two_events =
     [(draft ''B'')\<lparr> id_f := Some ''b'', timestamp := Some 50 \<rparr>,
      (draft ''A'')\<lparr> id_f := Some ''a'', timestamp := Some 100 \<rparr>]"

definition two_store :: localStorage where
  "two_store = [''audit_events'' \<mapsto> Parsed two_events]"



section \<open>The filter, stated as a conjunction of predicates\<close>

definition contains :: "string \<Rightarrow> string \<Rightarrow> bool" where
  "contains s needle \<longleftrightarrow> (\<exists>ps ss. s = ps @ needle @ ss)"

text \<open>The property is present and, without regard to case, contains the search text.\<close>

definition has_text :: "string option \<Rightarrow> string \<Rightarrow> bool" where
  "has_text fld q \<longleftrightarrow> (\<exists>s. fld = Some s \<and> contains (toLowerCase s) (toLowerCase q))"

definition search_matches :: "AuditEvent \<Rightarrow> string \<Rightarrow> bool" where
  "search_matches e q \<longleftrightarrow>
     has_text (Some (action e)) q \<or> has_text (Some (entity e)) q \<or> has_text (entityId e) q \<or>
     has_text (userName e) q \<or> has_text (description e) q"

text \<open>The filter semantics in the words of the specification: every predicate that the
  filter supplies must hold, and a date bound holds of an event whose timestamp is on the
  right side of it.\<close>

definition spec_satisfies :: "AuditFilter \<Rightarrow> AuditEvent \<Rightarrow> bool" where
  "spec_satisfies f e \<longleftrightarrow>
     (case f_action f of None \<Rightarrow> True | Some x \<Rightarrow> action e = x) \<and>
     (case f_entity f of None \<Rightarrow> True | Some x \<Rightarrow> entity e = x) \<and>
     (case f_entityId f of None \<Rightarrow> True | Some x \<Rightarrow> entityId e = Some x) \<and>
     (case f_userId f of None \<Rightarrow> True | Some x \<Rightarrow> userId e = Some x) \<and>
     (case f_startDate f of None \<Rightarrow> True
      | Some s \<Rightarrow> (case timestamp e of None \<Rightarrow> False | Some t \<Rightarrow> s \<le> t)) \<and>
     (case f_endDate f of None \<Rightarrow> True
      | Some d \<Rightarrow> (case timestamp e of None \<Rightarrow> False | Some t \<Rightarrow> t \<le> d)) \<and>
     (case f_search f of None \<Rightarrow> True | Some q \<Rightarrow> search_matches e q)"

text \<open>The same, with what the adapter takes as supplied and as bounded: an empty text
  and the number 0 count as not supplied, and a date bound constrains only an event that
  carries a timestamp other than 0.\<close>

definition satisfies :: "AuditFilter \<Rightarrow> AuditEvent \<Rightarrow> bool" where
  "satisfies f e \<longleftrightarrow>
     (case f_action f of None \<Rightarrow> True | Some x \<Rightarrow> x = [] \<or> action e = x) \<and>
     (case f_entity f of None \<Rightarrow> True | Some x \<Rightarrow> x = [] \<or> entity e = x) \<and>
     (case f_entityId f of None \<Rightarrow> True | Some x \<Rightarrow> x = [] \<or> entityId e = Some x) \<and>
     (case f_userId f of None \<Rightarrow> True | Some x \<Rightarrow> x = [] \<or> userId e = Some x) \<and>
     (case f_startDate f of None \<Rightarrow> True
      | Some s \<Rightarrow> s = 0 \<or> (case timestamp e of None \<Rightarrow> True | Some t \<Rightarrow> t = 0 \<or> s \<le> t)) \<and>
     (case f_endDate f of None \<Rightarrow> True
      | Some d \<Rightarrow> d = 0 \<or> (case timestamp e of None \<Rightarrow> True | Some t \<Rightarrow> t = 0 \<or> t \<le> d)) \<and>
     (case f_search f of None \<Rightarrow> True | Some q \<Rightarrow> q = [] \<or> search_matches e q)"

definition since_100 :: AuditFilter where
  "since_100 = no_filter\<lparr> f_startDate := Some 100 \<rparr>"

definition dated_events :: "AuditEvent list" where
  "dated_events =
     [draft ''none'',
      (draft ''zero'')\<lparr> timestamp := Some 0 \<rparr>,
      (draft ''early'')\<lparr> timestamp := Some 50 \<rparr>,
      (draft ''late'')\<lparr> timestamp := Some 200 \<rparr>]"

text \<open>The search scenario of the specification.\<close>

definition doc_events :: "AuditEvent list" where
  "doc_events =
     [(draft ''CREATE'')\<lparr> description := Some ''Document created'' \<rparr>,
      (draft ''LOGIN'')\<lparr> description := Some ''User login'' \<rparr>]"

definition search_doc :: QueryOptions where
  "search_doc = no_options\<lparr> filter_f := Some (no_filter\<lparr> f_search := Some ''doc'' \<rparr>) \<rparr>"

definition doc_result :: PaginatedResult where
  "doc_result =
     \<lparr> data = [(draft ''CREATE'')\<lparr> description := Some ''Document created'' \<rparr>],
       total_f = 1, res_page = 1, res_pageSize = 10, totalPages = 1 \<rparr>"

text \<open>A Firestore collection of two documents, and a request for the second page of
  size 1.\<close>

definition two_docs :: "doc list" where
  "two_docs =
     [(''d1'', (draft ''B'')\<lparr> id_f := Some ''b'', timestamp := Some 50 \<rparr>),
      (''d2'', (draft ''A'')\<lparr> id_f := Some ''a'', timestamp := Some 100 \<rparr>)]"

definition page_of_one :: "int \<Rightarrow> QueryOptions" where
  "page_of_one p = no_options\<lparr> pagination := Some \<lparr> page = p, pageSize = 1 \<rparr> \<rparr>"

text \<open>The events of a query before the page is cut: the stored events, filtered when a
  filter is given, then sorted when a sort is given (\<open>None\<close> when the sort throws).\<close>

definition filtered_sorted :: "AuditEvent list \<Rightarrow> QueryOptions \<Rightarrow> AuditEvent list option" where
  "filtered_sorted evs opts =
     (let filtered = (case filter_f opts of Some f \<Rightarrow> applyFilters evs f | None \<Rightarrow> evs)
      in case sort_f opts of Some s \<Rightarrow> applySort filtered s | None \<Rightarrow> Some filtered)"

text \<open>The result that \<open>query\<close> makes of the filtered and sorted events.\<close>

definition cut_page :: "AuditEvent list \<Rightarrow> PaginationOptions option \<Rightarrow> PaginatedResult" where
  "cut_page evs p =
     (let pg = or_num (map_option page p) 1;
          ps = or_num (map_option pageSize p) 10
      in \<lparr> data = slice evs ((pg - 1) * ps) ((pg - 1) * ps + ps), total_f = int (length evs),
           res_page = pg, res_pageSize = ps, totalPages = ceil_div (int (length evs)) ps \<rparr>)"

definition query_failed :: error where
  "query_failed = Error ''Failed to query audit events from localStorage''"

definition save_failed :: error where
  "save_failed = Error ''Failed to save audit event to localStorage''"

text \<open>The events of a stored value; a value that is no array has none.\<close>

definition events_of :: "stored \<Rightarrow> AuditEvent list" where
  "events_of v = (case v of Events evs \<Rightarrow> evs | NonArrayValue \<Rightarrow> [])"

section \<open>The order of the comparator\<close>



text \<open>A store whose text parses to \<open>null\<close>, and two events whose metadata has a key
  \<open>toString\<close>.\<close>

definition null_store :: localStorage where
  "null_store = [''audit_events'' \<mapsto> NotArray]"

definition by_metadata :: SortOptions where
  "by_metadata = \<lparr> field = ''metadata'', direction = Asc \<rparr>"

definition odd_metadata_store :: localStorage where
  "odd_metadata_store =
     [''audit_events'' \<mapsto>
        Parsed [(draft ''A'')\<lparr> metadata := Some [(''toString'', JStr ''x'')] \<rparr>,
                (draft ''B'')\<lparr> metadata := Some [(''toString'', JStr ''y'')] \<rparr>]]"


section \<open>Lemmas\<close>

subsection \<open>The store of the LocalStorageAdapter\<close>

lemma rel_index_nat [simp]: "rel_index len (int m) = min m len"
  by (simp add: rel_index_def)

lemma splice_nat [simp]: "splice xs (int m) = take m xs"
  by (simp add: splice_def min_def)

lemma getAllEvents_upd [simp]: "getAllEvents a (st(storageKey a \<mapsto> Parsed evs)) = Events evs"
  by (simp add: getAllEvents_def)

lemma getAllEvents_cases:
  "getAllEvents a st = NonArrayValue \<longleftrightarrow> st (storageKey a) = Some NotArray"
  by (simp add: getAllEvents_def split: option.splits blob.splits)

lemma save_ok:
  assumes "setItem_ok e" and "maxEvents a = int m" and "getAllEvents a st = Events evs"
  shows "save a e st event =
           Inr (st(storageKey a \<mapsto> Parsed (take m (newEvent e event # evs))))"
  using assms by (simp add: save_def Let_def)

lemma save_Inr:
  assumes "maxEvents a = int m" and "save a e st event = Inr st'"
  shows "\<exists>evs. getAllEvents a st = Events evs \<and> setItem_ok e \<and>
           st' = st(storageKey a \<mapsto> Parsed (take m (newEvent e event # evs)))"
proof (cases "getAllEvents a st")
  case (Events evs)
  have ok: "setItem_ok e"
    using assms(2) Events by (cases "setItem_ok e") (simp_all add: save_def Let_def)
  from save_ok[OF ok assms(1) Events, of event] assms(2) Events ok show ?thesis by simp
next
  case NonArrayValue
  with assms(2) show ?thesis by (simp add: save_def)
qed

lemma save_all_Inr:
  assumes "maxEvents a = int m"
  shows "save_all a st saves = Inr st' \<Longrightarrow> saves \<noteq> [] \<Longrightarrow>
    \<exists>evs. getAllEvents a st = Events evs \<and>
      getAllEvents a st' =
        Events (take m (rev (map (\<lambda>s. newEvent (fst s) (snd s)) saves) @ evs))"
proof (induction saves arbitrary: st)
  case Nil
  then show ?case by simp
next
  case (Cons s rest)
  let ?n = "newEvent (fst s) (snd s)"
  let ?later = "rev (map (\<lambda>s. newEvent (fst s) (snd s)) rest)"
  obtain st1 where s1: "save a (fst s) st (snd s) = Inr st1"
    and r: "save_all a st1 rest = Inr st'"
    using Cons.prems(1) by (cases "save a (fst s) st (snd s)") simp_all
  from save_Inr[OF assms s1] obtain evs where g: "getAllEvents a st = Events evs"
    and st1: "st1 = st(storageKey a \<mapsto> Parsed (take m (?n # evs)))"
    by blast
  have g1: "getAllEvents a st1 = Events (take m (?n # evs))"
    by (simp only: st1 getAllEvents_upd)
  show ?case
  proof (cases "rest = []")
    case True
    with r have "st' = st1" by simp
    with g g1 True show ?thesis by simp
  next
    case False
    from Cons.IH[OF r False] g1
    have "getAllEvents a st' = Events (take m (?later @ take m (?n # evs)))" by simp
    moreover have "take m (?later @ take m (?n # evs)) = take m (?later @ ?n # evs)"
      by (simp add: min_def)
    ultimately show ?thesis using g by simp
  qed
qed

lemma save_all_ok:
  assumes "maxEvents a = int m"
  shows "\<forall>s\<in>set saves. setItem_ok (fst s) \<Longrightarrow> getAllEvents a st = Events evs \<Longrightarrow>
    \<exists>st'. save_all a st saves = Inr st'"
proof (induction saves arbitrary: st evs)
  case Nil
  then show ?case by simp
next
  case (Cons s rest)
  let ?st1 = "st(storageKey a \<mapsto> Parsed (take m (newEvent (fst s) (snd s) # evs)))"
  have s1: "save a (fst s) st (snd s) = Inr ?st1"
    using Cons.prems assms by (simp add: save_ok)
  have "\<exists>st'. save_all a ?st1 rest = Inr st'"
  proof (rule Cons.IH)
    show "\<forall>s\<in>set rest. setItem_ok (fst s)" using Cons.prems(1) by simp
    show "getAllEvents a ?st1 = Events (take m (newEvent (fst s) (snd s) # evs))"
      by (rule getAllEvents_upd)
  qed
  with s1 show ?case by simp
qed

lemma query_empty_store:
  assumes "getAllEvents a st = Events []"
  shows "query a st options =
           Inr \<lparr> data = [], total_f = 0,
                 res_page = or_num (map_option page (Option.bind options pagination)) 1,
                 res_pageSize = or_num (map_option pageSize (Option.bind options pagination)) 10,
                 totalPages = 0 \<rparr>"
  using assms
  by (simp add: query_def Let_def applyFilters_def applySort_def js_sort_def slice_def ceil_div_def
      split: option.splits)

subsection \<open>Sorting a sorted list, the page window, the parts of a query\<close>

lemma place_last:
  "\<forall>y\<in>set ys. \<exists>n. c x y = Some n \<and> \<not> n < 0 \<Longrightarrow> place c x ys = Some (ys @ [x])"
  by (induction ys) auto

lemma sort_from_sorted:
  "sorted_wrt (\<lambda>y x. \<exists>n. c x y = Some n \<and> \<not> n < 0) (acc @ xs) \<Longrightarrow>
   sort_from c acc xs = Some (acc @ xs)"
proof (induction xs arbitrary: acc)
  case Nil
  then show ?case by simp
next
  case (Cons x xs)
  have "\<forall>y\<in>set acc. \<exists>n. c x y = Some n \<and> \<not> n < 0"
    using Cons.prems by (auto simp: sorted_wrt_append)
  then have p: "place c x acc = Some (acc @ [x])" by (rule place_last)
  have "sort_from c (acc @ [x]) xs = Some ((acc @ [x]) @ xs)"
    using Cons.prems by (intro Cons.IH) simp
  with p show ?case by simp
qed

lemma js_sort_sorted:
  "sorted_wrt (\<lambda>y x. \<exists>n. c x y = Some n \<and> \<not> n < 0) xs \<Longrightarrow> js_sort c xs = Some xs"
  using sort_from_sorted[of c "[]" xs] by (simp add: js_sort_def)



lemma comparator_timestamp_desc:
  assumes "timestamp x = Some tx" and "timestamp y = Some ty" and "ty \<le> tx"
  shows "\<exists>n. comparator by_timestamp_desc y x = Some n \<and> \<not> n < 0"
  using assms
  by (simp add: comparator_def by_timestamp_desc_def getField_def js_lt_def Let_def)

lemma applySort_timestamps_descending:
  assumes "timestamps_descending evs"
  shows "applySort evs by_timestamp_desc = Some evs"
proof -
  have "sorted_wrt (\<lambda>x y. \<exists>n. comparator by_timestamp_desc y x = Some n \<and> \<not> n < 0) evs"
    using assms unfolding timestamps_descending_def
  proof (rule sorted_wrt_mono_rel[rotated])
    fix x y :: AuditEvent
    assume "case (timestamp x, timestamp y) of (Some tx, Some ty) \<Rightarrow> ty \<le> tx | _ \<Rightarrow> False"
    then obtain tx ty where "timestamp x = Some tx" "timestamp y = Some ty" "ty \<le> tx"
      by (auto split: option.splits)
    then show "\<exists>n. comparator by_timestamp_desc y x = Some n \<and> \<not> n < 0"
      by (rule comparator_timestamp_desc)
  qed
  then show ?thesis unfolding applySort_def by (rule js_sort_sorted)
qed

lemma timestamps_descending_filter:
  "timestamps_descending evs \<Longrightarrow> timestamps_descending (filter P evs)"
  unfolding timestamps_descending_def by (rule sorted_wrt_filter)

lemma take_min_length: "take (min n (length xs)) xs = take n xs"
  by (simp add: min_def)

lemma slice_nat: "slice xs (int s) (int s + int n) = take n (drop s xs)"
proof (cases "s \<le> length xs")
  case True
  have "slice xs (int s) (int (s + n)) = take (min (s + n) (length xs) - s) (drop s xs)"
    using True by (simp add: slice_def del: of_nat_add)
  also have "min (s + n) (length xs) - s = min n (length (drop s xs))"
    using True by (auto simp: min_def)
  also have "take (min n (length (drop s xs))) (drop s xs) = take n (drop s xs)"
    by (rule take_min_length)
  finally show ?thesis by simp
next
  case False
  then show ?thesis by (simp add: slice_def)
qed

lemma slice_first: "slice xs 0 (int n) = take n xs"
  using slice_nat[of xs 0 n] by simp

lemma slice_window:
  assumes "0 \<le> s" and "0 \<le> n"
  shows "slice xs s (s + n) = take (nat n) (drop (nat s) xs)"
  using slice_nat[of xs "nat s" "nat n"] assms by simp

lemma query_Some:
  "query a st (Some opts) =
     (case getAllEvents a st of
        NonArrayValue \<Rightarrow> Inl query_failed
      | Events evs \<Rightarrow>
          (case filtered_sorted evs opts of
             None \<Rightarrow> Inl query_failed
           | Some srt \<Rightarrow> Inr (cut_page srt (pagination opts))))"
  by (simp add: query_def filtered_sorted_def cut_page_def query_failed_def Let_def
      split: stored.splits option.splits)

lemma query_None: "query a st None = query a st (Some no_options)"
  by (cases "getAllEvents a st") (simp_all add: query_def no_options_def)

lemma keeps_no_filter: "keeps no_filter e"
  by (simp add: keeps_def no_filter_def)

lemma applyFilters_no_filter: "applyFilters evs no_filter = evs"
  by (simp add: applyFilters_def keeps_no_filter)

lemma string_of_nat_nonempty: "string_of_nat n \<noteq> []"
  by (subst string_of_nat.simps) simp

lemma generateId_nonempty: "generateId e \<noteq> []"
  by (simp add: generateId_def)

subsection \<open>The insertion sort, for a comparator that decides a strict order\<close>

text \<open>In these lemmas \<open>B x y\<close> is the order that the comparator \<open>c\<close> decides where it
  returns a number: \<open>c x y = Some n\<close> gives \<open>n < 0\<close> exactly when \<open>B x y\<close>.\<close>

lemma place_Cons:
  assumes "place c x (y # ys) = Some zs"
  obtains n where "c x y = Some n" and "n < 0" and "zs = x # y # ys"
  | n zs' where "c x y = Some n" and "\<not> n < 0" and "place c x ys = Some zs'" and "zs = y # zs'"
  using assms by (auto split: option.splits if_splits)

lemma set_place: "place c x ys = Some zs \<Longrightarrow> set zs = insert x (set ys)"
proof (induction ys arbitrary: zs)
  case Nil
  then show ?case by auto
next
  case (Cons y ys)
  from Cons.prems show ?case
  proof (cases rule: place_Cons)
    case (1 n)
    then show ?thesis by auto
  next
    case (2 n zs')
    with Cons.IH[of zs'] show ?thesis by auto
  qed
qed

lemma length_place: "place c x ys = Some zs \<Longrightarrow> length zs = Suc (length ys)"
proof (induction ys arbitrary: zs)
  case Nil
  then show ?case by auto
next
  case (Cons y ys)
  from Cons.prems show ?case
  proof (cases rule: place_Cons)
    case (1 n)
    then show ?thesis by auto
  next
    case (2 n zs')
    with Cons.IH[of zs'] show ?thesis by auto
  qed
qed







lemma set_sort_from: "sort_from c acc xs = Some out \<Longrightarrow> set out = set acc \<union> set xs"
proof (induction xs arbitrary: acc)
  case Nil
  then show ?case by simp
next
  case (Cons x xs)
  from Cons.prems obtain acc' where p: "place c x acc = Some acc'"
    and r: "sort_from c acc' xs = Some out"
    by (auto split: option.splits)
  from Cons.IH[OF r] set_place[OF p] show ?case by auto
qed

lemma length_sort_from:
  "sort_from c acc xs = Some out \<Longrightarrow> length out = length acc + length xs"
proof (induction xs arbitrary: acc)
  case Nil
  then show ?case by simp
next
  case (Cons x xs)
  from Cons.prems obtain acc' where p: "place c x acc = Some acc'"
    and r: "sort_from c acc' xs = Some out"
    by (auto split: option.splits)
  from Cons.IH[OF r] length_place[OF p] show ?case by simp
qed



subsection \<open>The comparator of applySort\<close>

















lemma set_applySort: "applySort evs s = Some out \<Longrightarrow> set out = set evs"
  by (simp add: applySort_def js_sort_def set_sort_from)

lemma length_applySort: "applySort evs s = Some out \<Longrightarrow> length out = length evs"
  by (simp add: applySort_def js_sort_def length_sort_from)

subsection \<open>The filter callback as a conjunction\<close>

lemma startsWith_iff: "startsWith s p \<longleftrightarrow> (\<exists>ss. s = p @ ss)"
  by (induction s p rule: startsWith.induct) auto

lemma includes_str_iff: "includes_str s needle \<longleftrightarrow> contains s needle"
proof (induction s)
  case Nil
  then show ?case by (simp add: contains_def)
next
  case (Cons c cs)
  have "contains (c # cs) needle \<longleftrightarrow> (\<exists>ss. c # cs = needle @ ss) \<or> contains cs needle"
  proof
    assume "contains (c # cs) needle"
    then obtain ps ss where e: "c # cs = ps @ needle @ ss" by (auto simp: contains_def)
    show "(\<exists>ss. c # cs = needle @ ss) \<or> contains cs needle"
    proof (cases ps)
      case Nil
      with e show ?thesis by auto
    next
      case (Cons p ps')
      with e have "cs = ps' @ needle @ ss" by simp
      then show ?thesis by (auto simp: contains_def)
    qed
  next
    assume "(\<exists>ss. c # cs = needle @ ss) \<or> contains cs needle"
    then show "contains (c # cs) needle"
    proof
      assume "\<exists>ss. c # cs = needle @ ss"
      then obtain ss where "c # cs = [] @ needle @ ss" by auto
      then show ?thesis unfolding contains_def by blast
    next
      assume "contains cs needle"
      then obtain ps ss where "cs = ps @ needle @ ss" by (auto simp: contains_def)
      then have "c # cs = (c # ps) @ needle @ ss" by simp
      then show ?thesis unfolding contains_def by blast
    qed
  qed
  with Cons show ?case by (simp add: startsWith_iff)
qed

lemma searchable_iff: "searchable (toLowerCase q) fld \<longleftrightarrow> has_text fld q"
  by (cases fld) (simp_all add: searchable_def has_text_def includes_str_iff)

lemma keeps_iff_satisfies: "keeps f e \<longleftrightarrow> satisfies f e"
proof -
  have s: "(case f_search f of None \<Rightarrow> True
            | Some q \<Rightarrow> if q = [] then True
                else (let searchLower = toLowerCase q;
                          searchableFields =
                            [Some (action e), Some (entity e), entityId e, userName e, description e]
                      in list_ex (searchable searchLower) searchableFields))
         \<longleftrightarrow> (case f_search f of None \<Rightarrow> True | Some q \<Rightarrow> q = [] \<or> search_matches e q)"
    by (auto simp: Let_def searchable_iff search_matches_def split: option.splits)
  show ?thesis
    unfolding keeps_def satisfies_def s
    by (cases "f_action f"; cases "f_entity f"; cases "f_entityId f"; cases "f_userId f";
        cases "f_startDate f"; cases "f_endDate f"; cases "timestamp e")
       (auto simp: not_less)
qed

lemma set_slice_subset: "set (slice xs i j) \<subseteq> set xs"
proof -
  have "set (take n (drop k xs)) \<subseteq> set xs" for n k
    by (meson set_take_subset set_drop_subset subset_trans)
  then show ?thesis by (simp add: slice_def Let_def)
qed

lemma slice_all: "int (length xs) \<le> n \<Longrightarrow> slice xs 0 n = xs"
  by (simp add: slice_def rel_index_def)

lemma applyFilters_satisfies: "applyFilters evs f = filter (satisfies f) evs"
proof -
  have "keeps f = satisfies f" by (rule ext) (rule keeps_iff_satisfies)
  then show ?thesis by (simp add: applyFilters_def)
qed

text \<open>On a filter whose supplied values are non-empty texts and numbers other than 0,
  and an event with a timestamp other than 0, the two readings of the filter agree.\<close>

lemma satisfies_is_spec_satisfies:
  assumes "truthy_num (timestamp e)"
    and "f_action f \<noteq> Some []" and "f_entity f \<noteq> Some []" and "f_entityId f \<noteq> Some []"
    and "f_userId f \<noteq> Some []" and "f_startDate f \<noteq> Some 0" and "f_endDate f \<noteq> Some 0"
    and "f_search f \<noteq> Some []"
  shows "satisfies f e \<longleftrightarrow> spec_satisfies f e"
  using assms
  by (cases "timestamp e") (auto simp: satisfies_def spec_satisfies_def split: option.splits)

section \<open>Queries\<close>

subsection \<open>The page window\<close>

text \<open>The LocalStorageAdapter cuts the page out of the filtered and sorted events: for
  a page and a page size of at least 1, the result holds the events from index
  \<open>(page - 1) * pageSize\<close> up to, and without, index \<open>page * pageSize\<close>.\<close>

lemma query_page_window:
  assumes "pagination opts = Some p" and "1 \<le> page p" and "1 \<le> pageSize p"
    and "getAllEvents a st = Events evs" and "filtered_sorted evs opts = Some srt"
  shows "query a st (Some opts) =
           Inr \<lparr> data = take (nat (pageSize p)) (drop (nat ((page p - 1) * pageSize p)) srt),
                 total_f = int (length srt), res_page = page p, res_pageSize = pageSize p,
                 totalPages = ceil_div (int (length srt)) (pageSize p) \<rparr>"
proof -
  have "0 \<le> (page p - 1) * pageSize p" using assms(2,3) by simp
  then have "slice srt ((page p - 1) * pageSize p) ((page p - 1) * pageSize p + pageSize p)
      = take (nat (pageSize p)) (drop (nat ((page p - 1) * pageSize p)) srt)"
    using assms(3) by (intro slice_window) simp_all
  then show ?thesis
    using assms by (simp add: query_Some cut_page_def Let_def)
qed

text \<open>The FirebaseAdapter limits the query to \<open>pageSize\<close> documents and never moves
  the window: the events it returns do not depend on the page, nor on the search text.\<close>

lemma firebase_query_ignores_page:
  "map_sum id data (firebase_query coll (Some (opts\<lparr> pagination := Some \<lparr> page = p, pageSize = n \<rparr> \<rparr>)))
     = map_sum id data (firebase_query coll (Some (opts\<lparr> pagination := Some \<lparr> page = p', pageSize = n \<rparr> \<rparr>)))"
  by (simp add: firebase_query_def Let_def split: sum.splits)

lemma firebase_query_ignores_search:
  "filter_f opts = Some f \<Longrightarrow>
   firebase_query coll (Some (opts\<lparr> filter_f := Some (f\<lparr> f_search := q \<rparr>) \<rparr>))
     = firebase_query coll (Some opts)"
  by (simp add: firebase_query_def filter_constraints_def)

text \<open>
  Claim C1 at a failing input. Over a collection of two events, the FirebaseAdapter
  answers the request for page 2 of size 1 with the event of page 1 (the one with timestamp
  100), where the page window of the filtered and sorted events holds the event with
  timestamp 50. The LocalStorageAdapter returns that event for the same request.
\<close>

theorem firebase_query_second_page_is_first_page:
  "firebase_query two_docs (Some (page_of_one 2))
     = Inr \<lparr> data = [(draft ''A'')\<lparr> id_f := Some ''d2'', timestamp := Some 100 \<rparr>],
             total_f = 1, res_page = 2, res_pageSize = 1, totalPages = 1 \<rparr>
   \<and> firebase_query two_docs (Some (page_of_one 1))
     = Inr \<lparr> data = [(draft ''A'')\<lparr> id_f := Some ''d2'', timestamp := Some 100 \<rparr>],
             total_f = 1, res_page = 1, res_pageSize = 1, totalPages = 1 \<rparr>
   \<and> query adapter3 [''audit_events'' \<mapsto> Parsed (map snd two_docs)]
         (Some ((page_of_one 2)\<lparr> sort_f := Some by_timestamp_desc \<rparr>))
     = Inr \<lparr> data = [(draft ''B'')\<lparr> id_f := Some ''b'', timestamp := Some 50 \<rparr>],
             total_f = 2, res_page = 2, res_pageSize = 1, totalPages = 2 \<rparr>"
  by (simp add: firebase_query_def two_docs_def page_of_one_def no_options_def draft_def
      doc_event_def Let_def ceil_div_def js_sort_def comparator_def getField_def js_lt_def
      fs_before_def by_timestamp_desc_def adapter3_def getAllEvents_def query_def slice_def
      rel_index_def applySort_def)

subsection \<open>Filtering\<close>

text \<open>
  Claim C2, as stated, fails: with a start date of 100 the query keeps an event that has
  no timestamp and an event whose timestamp is 0, neither of which satisfies the bound.
\<close>

theorem date_bound_keeps_undated_events:
  "query adapter3 [''audit_events'' \<mapsto> Parsed dated_events]
       (Some \<lparr> filter_f = Some since_100, pagination = None, sort_f = None \<rparr>)
     = Inr \<lparr> data = [draft ''none'', (draft ''zero'')\<lparr> timestamp := Some 0 \<rparr>,
                     (draft ''late'')\<lparr> timestamp := Some 200 \<rparr>],
             total_f = 3, res_page = 1, res_pageSize = 10, totalPages = 1 \<rparr>
   \<and> \<not> spec_satisfies since_100 (draft ''none'')
   \<and> \<not> spec_satisfies since_100 ((draft ''zero'')\<lparr> timestamp := Some 0 \<rparr>)"
  by (simp add: adapter3_def dated_events_def since_100_def no_filter_def draft_def
      getAllEvents_def Let_def query_def slice_def rel_index_def ceil_div_def
      applyFilters_def keeps_def spec_satisfies_def)

text \<open>
  Claim C2, amended (LocalStorageAdapter). The filter keeps, in stored order, exactly the
  events that satisfy all supplied predicates conjoined, where an empty text or the number
  0 is not a supplied value, the four property filters are exact matches, the date bounds
  are inclusive and constrain only events that carry a timestamp other than 0, and the
  search text must occur, without regard to case, in one of action, entity, entityId,
  userName or description. The total of a query with a filter counts these events, every
  returned event is one of them, and a first page that is large enough returns them all.
\<close>

theorem query_filter_is_conjunction:
  "applyFilters evs f = filter (satisfies f) evs
   \<and> (filter_f opts = Some f \<and> query a st (Some opts) = Inr r \<longrightarrow>
        total_f r = int (length (filter (satisfies f) (events_of (getAllEvents a st)))) \<and>
        set (data r) \<subseteq> {e \<in> set (events_of (getAllEvents a st)). satisfies f e} \<and>
        (res_page r = 1 \<and> total_f r \<le> res_pageSize r \<longrightarrow>
           set (data r) = {e \<in> set (events_of (getAllEvents a st)). satisfies f e}))"
proof -
  let ?evs = "events_of (getAllEvents a st)"
  let ?flt = "filter (satisfies f) ?evs"
  have "total_f r = int (length ?flt) \<and> set (data r) \<subseteq> {e \<in> set ?evs. satisfies f e} \<and>
        (res_page r = 1 \<and> total_f r \<le> res_pageSize r \<longrightarrow>
           set (data r) = {e \<in> set ?evs. satisfies f e})"
    if h: "filter_f opts = Some f" "query a st (Some opts) = Inr r"
  proof -
    from h(2) obtain evs srt where g: "getAllEvents a st = Events evs"
      and fs: "filtered_sorted evs opts = Some srt"
      and r: "r = cut_page srt (pagination opts)"
      by (auto simp: query_Some split: stored.splits option.splits)
    have e: "?evs = evs" by (simp add: g events_of_def)
    have "length srt = length ?flt \<and> set srt = set ?flt"
    proof (cases "sort_f opts")
      case None
      with fs h(1) e show ?thesis by (simp add: filtered_sorted_def applyFilters_satisfies)
    next
      case (Some s)
      with fs h(1) e have "applySort ?flt s = Some srt"
        by (simp add: filtered_sorted_def applyFilters_satisfies)
      then show ?thesis by (simp add: set_applySort length_applySort)
    qed
    then have len: "length srt = length ?flt" and st: "set srt = set ?flt" by simp_all
    have t: "total_f r = int (length ?flt)" by (simp add: r cut_page_def Let_def len)
    have "set (data r) \<subseteq> set srt" by (simp add: r cut_page_def Let_def set_slice_subset)
    then have sub: "set (data r) \<subseteq> {e \<in> set ?evs. satisfies f e}" by (simp add: st)
    have "set (data r) = {e \<in> set ?evs. satisfies f e}"
      if w: "res_page r = 1 \<and> total_f r \<le> res_pageSize r"
    proof -
      from w have "or_num (map_option page (pagination opts)) 1 = 1"
        and "int (length srt) \<le> or_num (map_option pageSize (pagination opts)) 10"
        by (simp_all add: r cut_page_def Let_def)
      then have "data r = srt" by (simp add: r cut_page_def Let_def slice_all)
      then show ?thesis by (simp add: st)
    qed
    with t sub show ?thesis by blast
  qed
  then show ?thesis by (simp add: applyFilters_satisfies)
qed

theorem query_filter_is_conjunction_witness:
  "query adapter3 [''audit_events'' \<mapsto> Parsed doc_events] (Some search_doc) = Inr doc_result
   \<and> total_f doc_result = 1
   \<and> set (data doc_result)
       = {e \<in> set doc_events. satisfies (no_filter\<lparr> f_search := Some ''doc'' \<rparr>) e}"
proof -
  let ?st = "[''audit_events'' \<mapsto> Parsed doc_events]"
  have h1: "filter_f search_doc = Some (no_filter\<lparr> f_search := Some ''doc'' \<rparr>)"
    by (simp add: search_doc_def no_options_def)
  have h2: "query adapter3 ?st (Some search_doc) = Inr doc_result"
    by (simp add: adapter3_def doc_events_def search_doc_def no_options_def no_filter_def
        doc_result_def draft_def getAllEvents_def Let_def query_def slice_def rel_index_def
        ceil_div_def applyFilters_def keeps_def searchable_def toLowerCase_def lower_char_def)
  have h3: "res_page doc_result = 1 \<and> total_f doc_result \<le> res_pageSize doc_result"
    by (simp add: doc_result_def)
  have g: "events_of (getAllEvents adapter3 ?st) = doc_events"
    by (simp add: adapter3_def getAllEvents_def events_of_def)
  note t = query_filter_is_conjunction [where opts = search_doc and a = adapter3 and st = ?st
      and r = doc_result and f = "no_filter\<lparr> f_search := Some ''doc'' \<rparr>"]
  from t h1 h2 h3 have
    "set (data doc_result)
       = {e \<in> set (events_of (getAllEvents adapter3 ?st)).
            satisfies (no_filter\<lparr> f_search := Some ''doc'' \<rparr>) e}"
    by blast
  with h2 g show ?thesis by (simp add: doc_result_def)
qed

subsection \<open>Events without a timestamp and the date range\<close>

text \<open>
  Claim C10. An event that has no \<open>timestamp\<close> is never rejected by \<open>startDate\<close> or
  \<open>endDate\<close>: for any date range, the filter callback and \<open>applyFilters\<close> treat the
  event as they do with no date range at all.
\<close>

theorem missing_timestamp_passes_date_range:
  assumes "timestamp e = None"
  shows "keeps (f\<lparr> f_startDate := sd, f_endDate := ed \<rparr>) e
           = keeps (f\<lparr> f_startDate := None, f_endDate := None \<rparr>) e
       \<and> (e \<in> set (applyFilters evs (f\<lparr> f_startDate := sd, f_endDate := ed \<rparr>)))
           = (e \<in> set (applyFilters evs (f\<lparr> f_startDate := None, f_endDate := None \<rparr>)))"
  using assms by (simp add: keeps_def applyFilters_def split: option.splits)

theorem missing_timestamp_passes_date_range_witness:
  "timestamp (draft ''LOGIN'') = None \<and>
   draft ''LOGIN'' \<in> set (applyFilters [draft ''LOGIN''] (no_filter\<lparr> f_startDate := Some 100, f_endDate := Some 200 \<rparr>))"
  using missing_timestamp_passes_date_range [where e = "draft ''LOGIN''" and evs = "[draft ''LOGIN'']"
      and f = no_filter and sd = "Some 100" and ed = "Some 200"]
  by (simp add: draft_def no_filter_def keeps_def applyFilters_def)


subsection \<open>Options outside the contract\<close>

text \<open>\<open>query\<close> can fail: on a stored value that is no array, and when the sort compares
  two metadata objects that have no primitive value. Its error is then the adapter's one
  error.\<close>

lemma query_fails_on_null_store:
  "query adapter3 null_store None
     = Inl (Error ''Failed to query audit events from localStorage'')"
  by (simp add: query_def adapter3_def null_store_def getAllEvents_def)

lemma query_fails_comparing_metadata:
  "query adapter3 odd_metadata_store (Some (no_options\<lparr> sort_f := Some by_metadata \<rparr>))
     = Inl (Error ''Failed to query audit events from localStorage'')"
  by (simp add: query_def adapter3_def odd_metadata_store_def getAllEvents_def no_options_def
      by_metadata_def applySort_def js_sort_def comparator_def getField_def js_lt_def draft_def)





subsection \<open>Defaults\<close>

text \<open>
  Claim C4, as stated, fails in its last part: without \<open>sort\<close> the adapter does not
  sort. After saving an event with timestamp 100 and then one with timestamp 50, the
  default query returns them in stored order, timestamps 50 then 100, which is the
  reverse of the order by timestamp descending.
\<close>

theorem default_query_keeps_stored_order:
  "save_all adapter3 Map.empty
       [(env_at 1701, (draft ''A'')\<lparr> id_f := Some ''a'', timestamp := Some 100 \<rparr>),
        (env_at 1702, (draft ''B'')\<lparr> id_f := Some ''b'', timestamp := Some 50 \<rparr>)]
     = Inr two_store
   \<and> query adapter3 two_store None
       = Inr \<lparr> data = two_events, total_f = 2, res_page = 1, res_pageSize = 10, totalPages = 1 \<rparr>
   \<and> map timestamp two_events = [Some 50, Some 100]
   \<and> applySort two_events by_timestamp_desc = Some (rev two_events)"
  by (simp add: save_def adapter3_def env_at_def two_store_def two_events_def draft_def
      getAllEvents_def newEvent_def Let_def query_def slice_def rel_index_def ceil_div_def
      applySort_def js_sort_def comparator_def js_lt_def by_timestamp_desc_def getField_def)

text \<open>
  Claim C4, amended. A query without options is the query with all three parts omitted:
  on a stored array it returns the first ten stored events in stored order, page 1, page
  size 10. An omitted pagination is page 1 with page size 10, an omitted filter is the
  filter that matches every event, and an omitted sort keeps the stored order (most
  recently saved first), which is the order by timestamp descending when the stored events
  already are in that order.
\<close>

theorem query_defaults:
  "query a st None = query a st (Some no_options)
   \<and> query a st None
       = (case getAllEvents a st of
            NonArrayValue \<Rightarrow> Inl query_failed
          | Events evs \<Rightarrow>
              Inr \<lparr> data = take 10 evs, total_f = int (length evs), res_page = 1,
                    res_pageSize = 10, totalPages = ceil_div (int (length evs)) 10 \<rparr>)
   \<and> (pagination opts = None \<longrightarrow>
        query a st (Some opts) = query a st (Some (opts\<lparr> pagination := Some \<lparr> page = 1, pageSize = 10 \<rparr> \<rparr>)))
   \<and> (filter_f opts = None \<longrightarrow>
        query a st (Some opts) = query a st (Some (opts\<lparr> filter_f := Some no_filter \<rparr>)))
   \<and> (sort_f opts = None \<and> timestamps_descending (events_of (getAllEvents a st)) \<longrightarrow>
        query a st (Some opts) = query a st (Some (opts\<lparr> sort_f := Some by_timestamp_desc \<rparr>)))"
proof -
  have 1: "query a st None = query a st (Some no_options)" by (rule query_None)
  have 2: "query a st None
       = (case getAllEvents a st of
            NonArrayValue \<Rightarrow> Inl query_failed
          | Events evs \<Rightarrow>
              Inr \<lparr> data = take 10 evs, total_f = int (length evs), res_page = 1,
                    res_pageSize = 10, totalPages = ceil_div (int (length evs)) 10 \<rparr>)"
  proof (cases "getAllEvents a st")
    case (Events evs)
    with slice_first[of evs 10] show ?thesis
      by (simp add: query_None query_Some filtered_sorted_def cut_page_def no_options_def)
  next
    case NonArrayValue
    then show ?thesis by (simp add: query_None query_Some)
  qed
  have 3: "pagination opts = None \<longrightarrow>
        query a st (Some opts) = query a st (Some (opts\<lparr> pagination := Some \<lparr> page = 1, pageSize = 10 \<rparr> \<rparr>))"
    by (simp add: query_Some filtered_sorted_def cut_page_def split: stored.splits option.splits)
  have 4: "filter_f opts = None \<longrightarrow>
        query a st (Some opts) = query a st (Some (opts\<lparr> filter_f := Some no_filter \<rparr>))"
    by (simp add: query_Some filtered_sorted_def applyFilters_no_filter
        split: stored.splits option.splits)
  have 5: "query a st (Some opts) = query a st (Some (opts\<lparr> sort_f := Some by_timestamp_desc \<rparr>))"
    if h: "sort_f opts = None \<and> timestamps_descending (events_of (getAllEvents a st))"
  proof (cases "getAllEvents a st")
    case (Events evs)
    let ?filtered = "case filter_f opts of Some f \<Rightarrow> applyFilters evs f | None \<Rightarrow> evs"
    have "timestamps_descending evs" using h Events by (simp add: events_of_def)
    then have "timestamps_descending ?filtered"
      by (simp add: applyFilters_def timestamps_descending_filter split: option.splits)
    then have "applySort ?filtered by_timestamp_desc = Some ?filtered"
      by (rule applySort_timestamps_descending)
    then have "filtered_sorted evs (opts\<lparr> sort_f := Some by_timestamp_desc \<rparr>)
                 = filtered_sorted evs opts"
      using h by (simp add: filtered_sorted_def Let_def)
    with Events show ?thesis
      by (cases "filtered_sorted evs opts") (simp_all add: query_Some)
  next
    case NonArrayValue
    then show ?thesis by (simp add: query_Some)
  qed
  from 1 2 3 4 5 show ?thesis by blast
qed

theorem query_defaults_witness:
  "timestamps_descending (events_of (getAllEvents adapter3 [''audit_events'' \<mapsto> Parsed (rev two_events)]))
   \<and> query adapter3 [''audit_events'' \<mapsto> Parsed (rev two_events)] (Some no_options)
       = query adapter3 [''audit_events'' \<mapsto> Parsed (rev two_events)]
           (Some (no_options\<lparr> sort_f := Some by_timestamp_desc \<rparr>))"
proof -
  have h: "sort_f no_options = None
      \<and> timestamps_descending
          (events_of (getAllEvents adapter3 [''audit_events'' \<mapsto> Parsed (rev two_events)]))"
    by (simp add: no_options_def adapter3_def getAllEvents_def events_of_def two_events_def
        timestamps_descending_def)
  with query_defaults [of adapter3 "[''audit_events'' \<mapsto> Parsed (rev two_events)]" no_options]
  show ?thesis by blast
qed

subsection \<open>Sorting\<close>



section \<open>Saving\<close>

subsection \<open>Identity and timestamp of a saved event\<close>

text \<open>
  Claim C6, as stated, fails: \<open>save\<close> tests the caller's \<open>id\<close> and \<open>timestamp\<close> with
  \<open>||\<close>, so an empty \<open>id\<close> and the timestamp 0 are replaced by generated values.
\<close>

theorem save_replaces_falsy_id_and_timestamp:
  "save adapter3 (env_at 1700) Map.empty falsy_draft
     = Inr [''audit_events'' \<mapsto>
              Parsed [(draft ''LOGIN'')\<lparr> id_f := Some ''1700-k3x9q2m1z'', timestamp := Some 1700 \<rparr>]]
   \<and> id_f falsy_draft = Some [] \<and> timestamp falsy_draft = Some 0"
  by (simp add: save_def adapter3_def env_at_def falsy_draft_def draft_def getAllEvents_def
      newEvent_def generateId_def string_of_int_def Let_def)

text \<open>
  Claim C6, amended. With a maximum count of at least 1, a \<open>save\<close> that succeeds puts at
  the head of the store the draft with an \<open>id\<close> and a \<open>timestamp\<close>: the caller's \<open>id\<close>
  when it is a non-empty string, the caller's \<open>timestamp\<close> when it is a number other
  than 0, and otherwise the generated id (never empty) and the clock's value. Every other
  property is the draft's. The \<open>save\<close> succeeds when the stored value is an array and the
  write is accepted.
\<close>

theorem save_keeps_truthy_id_and_timestamp:
  assumes "1 \<le> maxEvents a"
  shows "(\<forall>st'. save a e st event = Inr st' \<longrightarrow>
           (\<exists>x rest. getAllEvents a st' = Events (x # rest) \<and>
              id_f x = (if truthy_str (id_f event) then id_f event else Some (generateId e)) \<and>
              timestamp x = (if truthy_num (timestamp event) then timestamp event else Some (now e)) \<and>
              truthy_str (id_f x) \<and> timestamp x \<noteq> None \<and>
              x\<lparr> id_f := id_f event, timestamp := timestamp event \<rparr> = event))
       \<and> (setItem_ok e \<and> getAllEvents a st \<noteq> NonArrayValue \<longrightarrow>
            (\<exists>st'. save a e st event = Inr st'))"
proof -
  define m where "m = nat (maxEvents a)"
  have m: "maxEvents a = int m" and m1: "1 \<le> m"
    using assms by (simp_all add: m_def)
  obtain m' where m': "m = Suc m'" using m1 by (cases m) auto
  let ?x = "newEvent e event"
  have i: "id_f ?x = (if truthy_str (id_f event) then id_f event else Some (generateId e))"
    by (cases "id_f event") (simp_all add: newEvent_def)
  have t: "timestamp ?x = (if truthy_num (timestamp event) then timestamp event else Some (now e))"
    by (cases "timestamp event") (simp_all add: newEvent_def)
  have ti: "truthy_str (id_f ?x)"
    by (cases "id_f event") (simp_all add: newEvent_def generateId_nonempty)
  have tt: "timestamp ?x \<noteq> None" by (simp add: newEvent_def)
  have r: "?x\<lparr> id_f := id_f event, timestamp := timestamp event \<rparr> = event"
    by (simp add: newEvent_def)
  have 1: "\<exists>x rest. getAllEvents a st' = Events (x # rest) \<and>
              id_f x = (if truthy_str (id_f event) then id_f event else Some (generateId e)) \<and>
              timestamp x = (if truthy_num (timestamp event) then timestamp event else Some (now e)) \<and>
              truthy_str (id_f x) \<and> timestamp x \<noteq> None \<and>
              x\<lparr> id_f := id_f event, timestamp := timestamp event \<rparr> = event"
    if s: "save a e st event = Inr st'" for st'
  proof -
    from save_Inr[OF m s] obtain evs where
      st': "st' = st(storageKey a \<mapsto> Parsed (take m (?x # evs)))"
      by blast
    have g: "getAllEvents a st' = Events (?x # take m' evs)"
      by (simp add: st' m')
    show ?thesis
    proof (intro exI conjI)
      show "getAllEvents a st' = Events (?x # take m' evs)" by (rule g)
    qed (rule i t ti tt r)+
  qed
  have 2: "\<exists>st'. save a e st event = Inr st'"
    if h: "setItem_ok e \<and> getAllEvents a st \<noteq> NonArrayValue"
  proof -
    from h obtain evs where g: "getAllEvents a st = Events evs"
      by (cases "getAllEvents a st") simp_all
    from h have ok: "setItem_ok e" ..
    from save_ok[OF ok m g, of event] show ?thesis by simp
  qed
  from 1 2 show ?thesis by blast
qed

theorem save_keeps_truthy_id_and_timestamp_witness:
  "1 \<le> maxEvents adapter3 \<and> setItem_ok (env_at 1700)
   \<and> getAllEvents adapter3 Map.empty \<noteq> NonArrayValue
   \<and> (\<exists>st' x rest.
        save adapter3 (env_at 1700) Map.empty
            ((draft ''LOGIN'')\<lparr> id_f := Some ''evt-1'', timestamp := Some 1234 \<rparr>)
          = Inr st' \<and>
        getAllEvents adapter3 st' = Events (x # rest) \<and> id_f x = Some ''evt-1'' \<and>
        timestamp x = Some 1234)"
proof -
  let ?ev = "(draft ''LOGIN'')\<lparr> id_f := Some ''evt-1'', timestamp := Some 1234 \<rparr>"
  have h1: "1 \<le> maxEvents adapter3" by (simp add: adapter3_def)
  have h2: "setItem_ok (env_at 1700)" by (simp add: env_at_def)
  have h3: "getAllEvents adapter3 Map.empty \<noteq> NonArrayValue" by (simp add: getAllEvents_def)
  note t = save_keeps_truthy_id_and_timestamp [OF h1, of "env_at 1700" Map.empty ?ev]
  from t h2 h3 obtain st' where s: "save adapter3 (env_at 1700) Map.empty ?ev = Inr st'"
    by blast
  from t s obtain x rest where g: "getAllEvents adapter3 st' = Events (x # rest)"
    and i: "id_f x = (if truthy_str (id_f ?ev) then id_f ?ev else Some (generateId (env_at 1700)))"
    and ts: "timestamp x = (if truthy_num (timestamp ?ev) then timestamp ?ev
                            else Some (now (env_at 1700)))"
    by blast
  from i have i': "id_f x = Some ''evt-1''" by simp
  from ts have ts': "timestamp x = Some 1234" by simp
  have "\<exists>st' x rest. save adapter3 (env_at 1700) Map.empty ?ev = Inr st' \<and>
        getAllEvents adapter3 st' = Events (x # rest) \<and> id_f x = Some ''evt-1'' \<and>
        timestamp x = Some 1234"
  proof (intro exI conjI)
    show "save adapter3 (env_at 1700) Map.empty ?ev = Inr st'" by (rule s)
    show "getAllEvents adapter3 st' = Events (x # rest)" by (rule g)
    show "id_f x = Some ''evt-1''" by (rule i')
    show "timestamp x = Some 1234" by (rule ts')
  qed
  with h1 h2 h3 show ?thesis by (intro conjI)
qed

subsection \<open>Retention\<close>

text \<open>
  Claim C7. With a maximum count \<open>m\<close>, after \<open>m + k\<close> saves (\<open>k \<ge> 1\<close>) that were made,
  the store holds exactly \<open>m\<close> events: the \<open>m\<close> most recently saved ones, the most
  recent first, whatever the store held before. The older events are dropped without an
  error. The saves are all made when the stored value is an array and every write is
  accepted.
\<close>

theorem retention_keeps_most_recent:
  assumes "maxEvents a = int m" and "length saves = m + k" and "1 \<le> k"
  shows "(\<forall>st'. save_all a st saves = Inr st' \<longrightarrow>
           getAllEvents a st' = Events (take m (rev (map (\<lambda>s. newEvent (fst s) (snd s)) saves))) \<and>
           length (take m (rev (map (\<lambda>s. newEvent (fst s) (snd s)) saves))) = m)
       \<and> ((\<forall>s\<in>set saves. setItem_ok (fst s)) \<and> getAllEvents a st \<noteq> NonArrayValue \<longrightarrow>
            (\<exists>st'. save_all a st saves = Inr st'))"
proof -
  let ?new = "rev (map (\<lambda>s. newEvent (fst s) (snd s)) saves)"
  have ne: "saves \<noteq> []" using assms(2,3) by auto
  have l: "length (take m ?new) = m" using assms(2) by simp
  have 1: "getAllEvents a st' = Events (take m ?new)"
    if s: "save_all a st saves = Inr st'" for st'
  proof -
    from save_all_Inr[OF assms(1) s ne] obtain evs where
      "getAllEvents a st' = Events (take m (?new @ evs))"
      by blast
    then show ?thesis using assms(2) by simp
  qed
  have 2: "\<exists>st'. save_all a st saves = Inr st'"
    if h: "(\<forall>s\<in>set saves. setItem_ok (fst s)) \<and> getAllEvents a st \<noteq> NonArrayValue"
  proof -
    from h obtain evs where g: "getAllEvents a st = Events evs"
      by (cases "getAllEvents a st") simp_all
    from h have ok: "\<forall>s\<in>set saves. setItem_ok (fst s)" ..
    from save_all_ok[OF assms(1) ok g] show ?thesis .
  qed
  from 1 2 l show ?thesis by blast
qed

text \<open>The scenario of the specification: \<open>m = 3\<close> and four saves E1 .. E4 leave
  E4, E3, E2.\<close>

theorem retention_keeps_most_recent_witness:
  "\<exists>st'. save_all adapter3 Map.empty four_saves = Inr st' \<and>
         map action (events_of (getAllEvents adapter3 st')) = [''E4'', ''E3'', ''E2''] \<and>
         length (events_of (getAllEvents adapter3 st')) = 3"
proof -
  have h1: "maxEvents adapter3 = int 3" by (simp add: adapter3_def)
  have h2: "length four_saves = 3 + 1" by (simp add: four_saves_def)
  have h3: "(1::nat) \<le> 1" by simp
  have h4: "\<forall>s\<in>set four_saves. setItem_ok (fst s)" by (simp add: four_saves_def env_at_def)
  have h5: "getAllEvents adapter3 Map.empty \<noteq> NonArrayValue" by (simp add: getAllEvents_def)
  note t = retention_keeps_most_recent [OF h1 h2 h3, of Map.empty]
  from t h4 h5 obtain st' where r: "save_all adapter3 Map.empty four_saves = Inr st'"
    by blast
  from t r have g: "getAllEvents adapter3 st' =
              Events (take 3 (rev (map (\<lambda>s. newEvent (fst s) (snd s)) four_saves)))"
    by blast
  have v: "map action (take 3 (rev (map (\<lambda>s. newEvent (fst s) (snd s)) four_saves)))
          = [''E4'', ''E3'', ''E2'']"
    by (simp add: four_saves_def newEvent_def draft_def)
  have a: "map action (events_of (getAllEvents adapter3 st')) = [''E4'', ''E3'', ''E2'']"
    using v by (simp add: g events_of_def)
  have "length (map action (events_of (getAllEvents adapter3 st'))) = 3"
    by (simp only: a) simp
  then have l: "length (events_of (getAllEvents adapter3 st')) = 3" by simp
  show ?thesis
  proof (intro exI conjI)
    show "save_all adapter3 Map.empty four_saves = Inr st'" by (rule r)
    show "map action (events_of (getAllEvents adapter3 st')) = [''E4'', ''E3'', ''E2'']"
      by (rule a)
    show "length (events_of (getAllEvents adapter3 st')) = 3" by (rule l)
  qed
qed

subsection \<open>A corrupt store\<close>

text \<open>
  Claim C8, as stated, fails for a stored text that is corrupt but parses: when it parses
  to a value that is no array (here \<open>null\<close>), \<open>getAllEvents\<close> returns that value,
  and \<open>save\<close> and \<open>query\<close> fail with the adapter's errors instead of treating the store
  as empty.
\<close>

theorem non_array_blob_fails:
  "save adapter3 (env_at 1700) null_store (draft ''LOGIN'')
     = Inl (Error ''Failed to save audit event to localStorage'')
   \<and> query adapter3 null_store None
     = Inl (Error ''Failed to query audit events from localStorage'')"
  by (simp add: save_def query_def adapter3_def null_store_def getAllEvents_def)

text \<open>
  Claim C8, amended. When the text stored under the adapter's key does not parse, \<open>query\<close>
  and \<open>save\<close> behave as on an empty store: \<open>query\<close> returns no events and a total of 0,
  and \<open>save\<close> succeeds and leaves a store that holds the new event only. The parse
  failure does not reach the caller.
\<close>

theorem unparseable_blob_is_empty_store:
  assumes "st (storageKey a) = Some Unparseable"
  shows "query a st options = query a (st(storageKey a \<mapsto> Parsed [])) options
       \<and> (\<exists>r. query a st options = Inr r \<and> data r = [] \<and> total_f r = 0)
       \<and> save a e st event = save a e (st(storageKey a \<mapsto> Parsed [])) event
       \<and> (setItem_ok e \<and> 1 \<le> maxEvents a \<longrightarrow>
            save a e st event = Inr (st(storageKey a \<mapsto> Parsed [newEvent e event])))"
proof -
  have g: "getAllEvents a st = Events []" using assms by (simp add: getAllEvents_def)
  have g': "getAllEvents a (st(storageKey a \<mapsto> Parsed [])) = Events []"
    by (simp add: getAllEvents_def)
  have 1: "query a st options = query a (st(storageKey a \<mapsto> Parsed [])) options"
    by (simp only: query_empty_store[OF g] query_empty_store[OF g'])
  have 2: "\<exists>r. query a st options = Inr r \<and> data r = [] \<and> total_f r = 0"
    by (simp add: query_empty_store[OF g])
  have 3: "save a e st event = save a e (st(storageKey a \<mapsto> Parsed [])) event"
    by (simp add: save_def g g' Let_def)
  have 4: "setItem_ok e \<and> 1 \<le> maxEvents a \<longrightarrow>
            save a e st event = Inr (st(storageKey a \<mapsto> Parsed [newEvent e event]))"
    by (simp add: save_def g Let_def)
  from 1 2 3 4 show ?thesis by blast
qed

theorem unparseable_blob_is_empty_store_witness:
  "[''audit_events'' \<mapsto> Unparseable] (storageKey adapter3) = Some Unparseable \<and>
   (\<exists>r. query adapter3 [''audit_events'' \<mapsto> Unparseable] None = Inr r \<and> data r = [] \<and> total_f r = 0) \<and>
   save adapter3 (env_at 1700) [''audit_events'' \<mapsto> Unparseable] (draft ''LOGIN'')
     = Inr [''audit_events'' \<mapsto> Parsed [newEvent (env_at 1700) (draft ''LOGIN'')]]"
proof -
  have h: "[''audit_events'' \<mapsto> Unparseable] (storageKey adapter3) = Some Unparseable"
    by (simp add: adapter3_def)
  have ok: "setItem_ok (env_at 1700) \<and> 1 \<le> maxEvents adapter3"
    by (simp add: adapter3_def env_at_def)
  have k: "storageKey adapter3 = ''audit_events''" by (simp add: adapter3_def)
  note t = unparseable_blob_is_empty_store [where st = "[''audit_events'' \<mapsto> Unparseable]"
      and a = adapter3 and options = None and e = "env_at 1700" and event = "draft ''LOGIN''"]
  from t [OF h] ok
  have "(\<exists>r. query adapter3 [''audit_events'' \<mapsto> Unparseable] None = Inr r \<and> data r = [] \<and> total_f r = 0)"
    and "save adapter3 (env_at 1700) [''audit_events'' \<mapsto> Unparseable] (draft ''LOGIN'')
          = Inr ([''audit_events'' \<mapsto> Unparseable](storageKey adapter3 \<mapsto> Parsed [newEvent (env_at 1700) (draft ''LOGIN'')]))"
    by blast+
  with h show ?thesis by (simp add: k)
qed

section \<open>A failed save through the provider\<close>

text \<open>
  Claim C9. When the request of the API adapter's \<open>save\<close> is answered with a status
  outside 200 .. 299, \<open>save\<close> throws its store failure (an \<open>Error\<close> with the message
  of the adapter). \<open>track\<close> hands that error to its caller, and the state of an idle
  provider changes in nothing but its \<open>error\<close>, which now holds that error.
\<close>

theorem api_save_failure_recorded:
  assumes "fetch (create_request config t event) = Response status statusText"
    and "\<not> response_ok status"
    and "\<not> loading c"
  shows "api_save config fetch t event = Inl (Error ''Failed to save audit event via API'')
       \<and> track c (api_save config fetch t) event
           = (Inl (Error ''Failed to save audit event via API''),
              c\<lparr> error := Some (Error ''Failed to save audit event via API'') \<rparr>)"
  using assms by (simp add: api_save_def track_def)

theorem api_save_failure_recorded_witness:
  "\<not> response_ok 500 \<and> \<not> loading idle \<and>
   track idle (api_save api_config (\<lambda>r. Response 500 ''Internal Server Error'') 1700) (draft ''LOGIN'')
     = (Inl (Error ''Failed to save audit event via API''),
        idle\<lparr> error := Some (Error ''Failed to save audit event via API'') \<rparr>)"
proof -
  have h1: "(\<lambda>r. Response 500 ''Internal Server Error'') (create_request api_config 1700 (draft ''LOGIN''))
              = Response 500 ''Internal Server Error''"
    by simp
  have h2: "\<not> response_ok 500" by (simp add: response_ok_def)
  have h3: "\<not> loading idle" by (simp add: idle_def)
  from api_save_failure_recorded [OF h1 h2 h3] h2 h3 show ?thesis by blast
qed


end
